theory Spec2Isabelle
  imports Main
begin

section \<open>Data model (models.py)\<close>

text \<open>
  Rows of the tables the request handlers and the checked constraints touch. A table is
  the list of its rows in insertion order. Columns that no handler under study reads or
  writes are left out of the row records. Python strings are modelled as \<open>string\<close>;
  a \<open>DateTime\<close> is the number of microseconds since the epoch (the resolution of
  Python's \<open>datetime\<close>), so \<open>timedelta(minutes=30)\<close> is \<open>30 * 60 * 1000000\<close>.
\<close>

type_synonym datetime = int

definition timedelta_minutes :: "int \<Rightarrow> int" where
  "timedelta_minutes m = m * 60 * 1000000"

text \<open>
  \<open>User\<close>: \<open>is_active\<close> is a column of the table (default \<open>True\<close>) and
  replaces the property of the same name of \<open>UserMixin\<close>; a \<open>NULL\<close> in it is
  false for Python, as \<open>False\<close> is.
\<close>

record user =
  uid :: nat
  username :: string
  email :: string
  password_hash :: string
  is_active :: bool

text \<open>
  \<open>PasswordReset\<close>: \<open>created_at\<close> has \<open>default=datetime.utcnow\<close> and
  \<open>used\<close> has \<open>default=False\<close>; the only constructor call in the repository,
  \<open>PasswordReset(email=email, code=code)\<close>, leaves both to their defaults. The
  primary key of a row is its position in the table.
\<close>

record password_reset =
  reset_email :: string
  code :: string
  created_at :: datetime
  used :: bool

section \<open>Requests, session and the environment of a request (app.py)\<close>

datatype http_method = GET | POST

text \<open>
  \<open>request.form\<close> is a dictionary of submitted fields. \<open>csrf_ok\<close> is the result of
  \<open>form.validate_on_submit()\<close> on the bare \<open>FlaskForm()\<close> the handlers build, which
  has no field besides the CSRF token.
\<close>

record request =
  rq_method :: http_method
  form :: "string \<rightharpoonup> string"
  csrf_ok :: bool

text \<open>
  The session cookie: the user id stored by \<open>login_user\<close> and the
  \<open>login_email\<close> key set by a passwordless login request.
\<close>

record session =
  user_id :: "nat option"
  login_email :: "string option"

text \<open>
  What a handler reads from outside the database and the request: the password hashing
  functions of werkzeug, the clock, the six digits drawn with \<open>secrets.choice\<close>, and
  whether \<open>mail.send\<close>, \<open>db.session.commit\<close> and the flush of a pending change
  that a query triggers (the session autoflushes) raise.
\<close>

record env =
  check_password_hash :: "string \<Rightarrow> string \<Rightarrow> bool"
  generate_password_hash :: "string \<Rightarrow> string"
  utcnow :: datetime
  secrets_code :: string
  mail_ok :: bool
  commit_ok :: bool
  flush_ok :: bool

record world =
  users :: "user list"
  password_resets :: "password_reset list"
  sess :: session
  outbox :: "(string \<times> string) list"
  flashes :: "string list"

datatype response = Render string | Redirect string

definition flash :: "string \<Rightarrow> world \<Rightarrow> world" where
  "flash m w = w\<lparr>flashes := flashes w @ [m]\<rparr>"

text \<open>Python truthiness of \<open>request.form.get(k)\<close>: \<open>None\<close> and \<open>''\<close> are false.\<close>

definition truthy :: "string option \<Rightarrow> bool" where
  "truthy v = (case v of None \<Rightarrow> False | Some s \<Rightarrow> s \<noteq> [])"

definition form_get_default :: "request \<Rightarrow> string \<Rightarrow> string \<Rightarrow> string" where
  "form_get_default rq k d = (case form rq k of None \<Rightarrow> d | Some s \<Rightarrow> s)"

text \<open>\<open>User.query.filter_by(email=e).first()\<close> and the same for \<open>username\<close>.\<close>

definition user_by_email :: "user list \<Rightarrow> string \<Rightarrow> user option" where
  "user_by_email us e = find (\<lambda>u. email u = e) us"

definition user_by_username :: "user list \<Rightarrow> string \<Rightarrow> user option" where
  "user_by_username us n = find (\<lambda>u. username u = n) us"

text \<open>\<open>load_user\<close>: \<open>User.query.get(int(user_id))\<close>.\<close>

definition load_user :: "user list \<Rightarrow> nat \<Rightarrow> user option" where
  "load_user us i = find (\<lambda>u. uid u = i) us"

text \<open>
  \<open>current_user.is_authenticated\<close>: the session carries a user id that
  \<open>load_user\<close> resolves. \<open>login_user\<close> of flask_login stores the id of the user
  in the session when \<open>user.is_active\<close> holds; otherwise it stores nothing and returns
  \<open>False\<close>, a result that no caller in app.py looks at. \<open>logout_user\<close> removes
  the id.
\<close>

definition is_authenticated :: "world \<Rightarrow> bool" where
  "is_authenticated w =
     (case user_id (sess w) of None \<Rightarrow> False | Some i \<Rightarrow> load_user (users w) i \<noteq> None)"

definition login_user :: "user \<Rightarrow> world \<Rightarrow> world" where
  "login_user u w =
     (if is_active u then w\<lparr>sess := (sess w)\<lparr>user_id := Some (uid u)\<rparr>\<rparr> else w)"

definition logout_user :: "world \<Rightarrow> world" where
  "logout_user w = w\<lparr>sess := (sess w)\<lparr>user_id := None\<rparr>\<rparr>"

text \<open>
  The name \<open>Message\<close>. app.py imports \<open>Message\<close> from flask_mail (line 12) and
  later, still at module level, from models (line 112), so that when a request is handled
  the name is bound to the model class of the \<open>messages\<close> table. The constructor of a
  model takes keyword arguments only; called with the subject as a positional argument it
  raises \<open>TypeError\<close>.
\<close>

datatype exception = TypeError

definition Message :: "string \<Rightarrow> string list \<Rightarrow> exception + (string \<times> string list)" where
  "Message subject recipients = Inl TypeError"

text \<open>
  \<open>send_verification_code\<close>: every exception raised in the \<open>try\<close> block, by the
  construction of the message or by \<open>mail.send\<close>, is caught and turned into
  \<open>False\<close>. A sent mail is recorded as (recipient, code).
\<close>

definition send_verification_code :: "env \<Rightarrow> string \<Rightarrow> string \<Rightarrow> world \<Rightarrow> bool \<times> world" where
  "send_verification_code ev e c w =
     (case Message ''Your Login Code'' [e] of
        Inl exn \<Rightarrow> (False, w)
      | Inr msg \<Rightarrow>
          if mail_ok ev then (True, w\<lparr>outbox := outbox w @ [(e, c)]\<rparr>) else (False, w))"

subsection \<open>The login handler\<close>

definition login :: "env \<Rightarrow> request \<Rightarrow> world \<Rightarrow> response \<times> world" where
  "login ev rq w =
     (if is_authenticated w then (Redirect ''dashboard'', w)
      else if rq_method rq = POST then
        (if \<not> csrf_ok rq then (Render ''login.html'', flash ''Invalid form submission'' w)
         else if \<not> truthy (form rq ''email'') then
           (Render ''login.html'', flash ''Email is required'' w)
         else
           (let e = the (form rq ''email'');
                password = form rq ''password'';
                login_type = form_get_default rq ''login_type'' ''password''
            in case user_by_email (users w) e of
                 None \<Rightarrow> (Render ''login.html'', flash ''No account found with this email address'' w)
               | Some u \<Rightarrow>
                   if login_type = ''password'' then
                     (if \<not> truthy password then
                        (Render ''login.html'', flash ''Password is required'' w)
                      else if password_hash u = [] then
                        (Render ''login.html'',
                         flash ''Please use passwordless login or reset your password'' w)
                      else if \<not> check_password_hash ev (password_hash u) (the password) then
                        (Render ''login.html'', flash ''Invalid password'' w)
                      else (Redirect ''dashboard'', login_user u w))
                   else
                     (let c = secrets_code ev;
                          reset = \<lparr>reset_email = e, code = c, created_at = utcnow ev, used = False\<rparr>
                      in if \<not> commit_ok ev then
                           (Render ''login.html'', flash ''Error processing login'' w)
                         else
                           (let w1 = w\<lparr>password_resets := password_resets w @ [reset]\<rparr>
                            in case send_verification_code ev e c w1 of
                                 (True, w2) \<Rightarrow>
                                   (Redirect ''verify_login'',
                                    (flash ''A verification code has been sent to your email'' w2)
                                      \<lparr>sess := (sess w2)\<lparr>login_email := Some e\<rparr>\<rparr>)
                               | (False, w2) \<Rightarrow>
                                   (Render ''login.html'',
                                    flash ''Error sending verification code'' w2)))))
      else (Render ''login.html'', w))"

subsection \<open>The verify_login handler\<close>

text \<open>
  The query \<open>PasswordReset.query.filter_by(email=email, code=code, used=False)
  .order_by(PasswordReset.created_at.desc()).first()\<close>: among the rows that pass the
  filter, one with the greatest \<open>created_at\<close>, with its position in the table. SQL
  leaves the order of rows with equal \<open>created_at\<close> open; here the earliest
  inserted of them comes first.
\<close>

fun newest :: "(nat \<times> password_reset) list \<Rightarrow> (nat \<times> password_reset) option" where
  "newest [] = None"
| "newest (x # xs) =
     (case newest xs of
        None \<Rightarrow> Some x
      | Some y \<Rightarrow> if created_at (snd x) < created_at (snd y) then Some y else Some x)"

definition unused_match :: "string \<Rightarrow> string \<Rightarrow> password_reset \<Rightarrow> bool" where
  "unused_match e c r \<longleftrightarrow> reset_email r = e \<and> code r = c \<and> \<not> used r"

definition find_reset :: "password_reset list \<Rightarrow> string \<Rightarrow> string \<Rightarrow> (nat \<times> password_reset) option" where
  "find_reset rs e c = newest (filter (\<lambda>(i, r). unused_match e c r) (enumerate 0 rs))"

text \<open>
  After the checks the handler sets \<open>reset.used = True\<close> and then queries the user;
  the query flushes the pending \<open>UPDATE\<close> first, and an exception there or in the
  later commit ends in the \<open>except\<close> branch, which rolls the change back. When no
  user is found nothing is committed, and the change is dropped with the request.
\<close>

definition verify_login :: "env \<Rightarrow> request \<Rightarrow> world \<Rightarrow> response \<times> world" where
  "verify_login ev rq w =
     (if is_authenticated w then (Redirect ''dashboard'', w)
      else if \<not> truthy (login_email (sess w)) then
        (Redirect ''login'', flash ''Please start the login process again'' w)
      else if rq_method rq = POST then
        (if \<not> csrf_ok rq then
           (Render ''verify_login.html'', flash ''Invalid form submission'' w)
         else if \<not> truthy (form rq ''code'') then
           (Render ''verify_login.html'', flash ''Verification code is required'' w)
         else
           (let e = the (login_email (sess w)); c = the (form rq ''code'')
            in case find_reset (password_resets w) e c of
                 None \<Rightarrow>
                   (Render ''verify_login.html'', flash ''Invalid or expired verification code'' w)
               | Some (i, reset) \<Rightarrow>
                   if utcnow ev - created_at reset > timedelta_minutes 30 then
                     (Render ''verify_login.html'',
                      flash ''Invalid or expired verification code'' w)
                   else if \<not> flush_ok ev then
                     (Render ''verify_login.html'', flash ''Error processing verification'' w)
                   else
                     (case user_by_email (users w) e of
                        Some u \<Rightarrow>
                          if commit_ok ev then
                            (Redirect ''dashboard'',
                             (login_user u w)
                               \<lparr>password_resets := (password_resets w)[i := reset\<lparr>used := True\<rparr>],
                                sess := (sess (login_user u w))\<lparr>login_email := None\<rparr>\<rparr>)
                          else
                            (Render ''verify_login.html'',
                             flash ''Error processing verification'' (login_user u w))
                      | None \<Rightarrow> (Redirect ''login'', flash ''User not found'' w))))
      else (Render ''verify_login.html'', w))"

text \<open>
  The acceptance rule in the words of the specification: the submitted code is the most
  recent unused code stored for the email, and at most 30 minutes have passed since that
  code was issued.
\<close>

definition spec_code_accepted :: "password_reset list \<Rightarrow> string \<Rightarrow> string \<Rightarrow> datetime \<Rightarrow> bool" where
  "spec_code_accepted rs e c now =
     (case newest (filter (\<lambda>(i, r). reset_email r = e \<and> \<not> used r) (enumerate 0 rs)) of
        None \<Rightarrow> False
      | Some (i, r) \<Rightarrow> code r = c \<and> now - created_at r \<le> timedelta_minutes 30)"

subsection \<open>The register handler\<close>

text \<open>The autoincremented primary key of a new \<open>users\<close> row.\<close>

definition next_id :: "user list \<Rightarrow> nat" where
  "next_id us = Suc (fold max (map uid us) 0)"

definition register :: "env \<Rightarrow> request \<Rightarrow> world \<Rightarrow> response \<times> world" where
  "register ev rq w =
     (if is_authenticated w then (Redirect ''dashboard'', w)
      else if rq_method rq = POST then
        (if \<not> csrf_ok rq then (Render ''register.html'', flash ''Invalid form submission'' w)
         else
           (let e = form rq ''email''; n = form rq ''username''; p = form rq ''password''
            in if \<not> (truthy e \<and> truthy n \<and> truthy p) then
                 (Render ''register.html'', flash ''All fields are required'' w)
               else if user_by_email (users w) (the e) \<noteq> None then
                 (Render ''register.html'', flash ''Email already registered'' w)
               else if user_by_username (users w) (the n) \<noteq> None then
                 (Render ''register.html'', flash ''Username already taken'' w)
               else if \<not> commit_ok ev then
                 (Render ''register.html'', flash ''Error creating account'' w)
               else
                 (let u = \<lparr>uid = next_id (users w), username = the n, email = the e,
                           password_hash = generate_password_hash ev (the p), is_active = True\<rparr>
                  in (Redirect ''dashboard'', login_user u (w\<lparr>users := users w @ [u]\<rparr>)))))
      else (Render ''register.html'', w))"

subsection \<open>Logout and sequences of requests\<close>

definition logout :: "world \<Rightarrow> response \<times> world" where
  "logout w = (Redirect ''login'', logout_user w)"

text \<open>
  The routes of the application. \<open>/\<close>, \<open>/dashboard\<close>, \<open>/status\<close>,
  \<open>/test\<close> and \<open>/registration_statement\<close> write neither the database nor the
  session. The database is shared by all clients, and every request arrives with the
  session cookie of its client.
\<close>

datatype route = Login | VerifyLogin | Logout | Register | ReadOnly

fun handle :: "route \<Rightarrow> env \<Rightarrow> request \<Rightarrow> world \<Rightarrow> world" where
  "handle Login ev rq w = snd (login ev rq w)"
| "handle VerifyLogin ev rq w = snd (verify_login ev rq w)"
| "handle Logout ev rq w = snd (logout w)"
| "handle Register ev rq w = snd (register ev rq w)"
| "handle ReadOnly ev rq w = w"

fun run :: "(route \<times> env \<times> request \<times> session) list \<Rightarrow> world \<Rightarrow> world" where
  "run [] w = w"
| "run ((r, ev, rq, s) # steps) w = run steps (handle r ev rq (w\<lparr>sess := s\<rparr>))"

section \<open>Form validation (forms.py)\<close>

datatype validation_error = ValidationError string

text \<open>
  The validator \<open>Length(min=n, message=m)\<close> of a form field, and the two length
  bounds that \<open>RegistrationForm\<close> declares. The length is that of the list of
  characters, which is Python's \<open>len\<close> on ASCII input.
\<close>

definition Length_min :: "nat \<Rightarrow> string \<Rightarrow> string \<Rightarrow> validation_error + unit" where
  "Length_min n m d = (if n \<le> length d then Inr () else Inl (ValidationError m))"

definition RegistrationForm_username :: "string \<Rightarrow> validation_error + unit" where
  "RegistrationForm_username d = Length_min 3 ''Username must be at least 3 characters long'' d"

definition RegistrationForm_password :: "string \<Rightarrow> validation_error + unit" where
  "RegistrationForm_password d = Length_min 8 ''Password must be at least 8 characters long'' d"

record channel =
  channel_name :: string
  slug :: string

text \<open>
  \<open>ChannelForm.validate_name\<close>. \<open>slugify\<close> comes from the python-slugify package
  and is a parameter; \<open>Channel.query.filter_by(slug=slug).first()\<close> is the first
  channel row with that slug.
\<close>

definition validate_name :: "(string \<Rightarrow> string) \<Rightarrow> channel list \<Rightarrow> string \<Rightarrow> validation_error + unit" where
  "validate_name slugify channels d =
     (let s = slugify d
      in case find (\<lambda>c. slug c = s) channels of
           Some existing \<Rightarrow> Inl (ValidationError ''A channel with this name already exists.'')
         | None \<Rightarrow> Inr ())"

section \<open>Table constraints (models.py)\<close>

text \<open>
  An insert into a table succeeds when every constraint declared in the model's
  \<open>__table_args__\<close> holds of the new row, and raises an integrity error naming the
  violated constraint otherwise. Nullable columns are options. In a \<open>UNIQUE\<close>
  constraint two \<open>NULL\<close>s do not collide (SQLite and PostgreSQL, the two backends the
  application configures). Foreign keys are not checked by the insert: SQLite does not
  enforce them unless asked to.
\<close>

datatype db_error = IntegrityError string

record reaction =
  r_user_id :: nat
  r_post_id :: "nat option"
  r_comment_id :: "nat option"
  reaction_type :: string

definition chk_reaction_target :: "reaction \<Rightarrow> bool" where
  "chk_reaction_target r =
     ((r_post_id r \<noteq> None \<and> r_comment_id r = None) \<or> (r_post_id r = None \<and> r_comment_id r \<noteq> None))"

definition uix_user_post_reaction :: "reaction list \<Rightarrow> reaction \<Rightarrow> bool" where
  "uix_user_post_reaction rs r =
     (\<forall>x \<in> set rs. \<not> (r_user_id x = r_user_id r \<and> r_post_id x \<noteq> None \<and> r_post_id x = r_post_id r))"

definition uix_user_comment_reaction :: "reaction list \<Rightarrow> reaction \<Rightarrow> bool" where
  "uix_user_comment_reaction rs r =
     (\<forall>x \<in> set rs. \<not> (r_user_id x = r_user_id r \<and> r_comment_id x \<noteq> None
                        \<and> r_comment_id x = r_comment_id r))"

definition insert_reaction :: "reaction list \<Rightarrow> reaction \<Rightarrow> db_error + reaction list" where
  "insert_reaction rs r =
     (if \<not> uix_user_post_reaction rs r then Inl (IntegrityError ''uix_user_post_reaction'')
      else if \<not> uix_user_comment_reaction rs r then Inl (IntegrityError ''uix_user_comment_reaction'')
      else if \<not> chk_reaction_target r then Inl (IntegrityError ''chk_reaction_target'')
      else Inr (rs @ [r]))"

text \<open>
  What the claim about reactions asks of every row: exactly one of \<open>post_id\<close> and
  \<open>comment_id\<close> is set.
\<close>

definition exactly_one_target :: "reaction \<Rightarrow> bool" where
  "exactly_one_target r \<longleftrightarrow> (r_post_id r = None) \<noteq> (r_comment_id r = None)"

text \<open>
  The other statements that change the table. An \<open>UPDATE\<close> of the row at position
  \<open>i\<close> is checked against the same constraints, the uniqueness ones against the other
  rows; with no such row it changes nothing. A \<open>DELETE\<close> is never rejected.
\<close>

definition delete_reaction :: "reaction list \<Rightarrow> nat \<Rightarrow> reaction list" where
  "delete_reaction rs i = take i rs @ drop (Suc i) rs"

definition update_reaction :: "reaction list \<Rightarrow> nat \<Rightarrow> reaction \<Rightarrow> db_error + reaction list" where
  "update_reaction rs i r =
     (if length rs \<le> i then Inr rs
      else if \<not> uix_user_post_reaction (delete_reaction rs i) r then
        Inl (IntegrityError ''uix_user_post_reaction'')
      else if \<not> uix_user_comment_reaction (delete_reaction rs i) r then
        Inl (IntegrityError ''uix_user_comment_reaction'')
      else if \<not> chk_reaction_target r then Inl (IntegrityError ''chk_reaction_target'')
      else Inr (rs[i := r]))"

datatype reaction_op = Insert reaction | Update nat reaction | Delete nat

text \<open>
  A database state is reached from the empty table by a sequence of attempted
  statements; a rejected statement leaves the table as it was.
\<close>

fun apply_reaction_op :: "reaction list \<Rightarrow> reaction_op \<Rightarrow> reaction list" where
  "apply_reaction_op rs (Insert r) =
     (case insert_reaction rs r of Inl err \<Rightarrow> rs | Inr rs' \<Rightarrow> rs')"
| "apply_reaction_op rs (Update i r) =
     (case update_reaction rs i r of Inl err \<Rightarrow> rs | Inr rs' \<Rightarrow> rs')"
| "apply_reaction_op rs (Delete i) = delete_reaction rs i"

definition run_reaction_ops :: "reaction list \<Rightarrow> reaction_op list \<Rightarrow> reaction list" where
  "run_reaction_ops rs ops = foldl apply_reaction_op rs ops"

record poll_option =
  option_pk :: nat
  option_post_id :: nat
  option_text :: string
  position :: nat

record poll_vote =
  v_user_id :: nat
  v_option_id :: nat

definition uix_user_option_vote :: "poll_vote list \<Rightarrow> poll_vote \<Rightarrow> bool" where
  "uix_user_option_vote vs v =
     (\<forall>x \<in> set vs. \<not> (v_user_id x = v_user_id v \<and> v_option_id x = v_option_id v))"

definition insert_poll_vote :: "poll_vote list \<Rightarrow> poll_vote \<Rightarrow> db_error + poll_vote list" where
  "insert_poll_vote vs v =
     (if \<not> uix_user_option_vote vs v then Inl (IntegrityError ''uix_user_option_vote'')
      else Inr (vs @ [v]))"

section \<open>Example data\<close>

text \<open>
  One registered account, an anonymous session and an environment in which a toy hash
  stands for werkzeug's: the hash of \<open>p\<close> is \<open>h:p\<close>.
\<close>

definition ex_alice :: user where
  "ex_alice = \<lparr>uid = 1, username = ''alice'', email = ''a@x.com'',
               password_hash = ''h:secret123'', is_active = True\<rparr>"

definition ex_env :: env where
  "ex_env = \<lparr>check_password_hash = (\<lambda>h p. h = ''h:'' @ p),
             generate_password_hash = (\<lambda>p. ''h:'' @ p),
             utcnow = 0, secrets_code = ''483920'', mail_ok = True, commit_ok = True,
             flush_ok = True\<rparr>"

definition ex_world :: world where
  "ex_world = \<lparr>users = [ex_alice], password_resets = [],
               sess = \<lparr>user_id = None, login_email = None\<rparr>, outbox = [], flashes = []\<rparr>"

definition ex_post :: "(string \<rightharpoonup> string) \<Rightarrow> request" where
  "ex_post f = \<lparr>rq_method = POST, form = f, csrf_ok = True\<rparr>"

text \<open>
  The same account after one passwordless login request (one code issued at time 0), and
  after two such requests one minute apart.
\<close>

definition ex_world_code :: world where
  "ex_world_code = ex_world
     \<lparr>password_resets :=
        [\<lparr>reset_email = ''a@x.com'', code = ''483920'', created_at = 0, used = False\<rparr>],
      sess := \<lparr>user_id = None, login_email = Some ''a@x.com''\<rparr>\<rparr>"


definition ex_world_two_codes :: world where
  "ex_world_two_codes = ex_world
     \<lparr>password_resets :=
        [\<lparr>reset_email = ''a@x.com'', code = ''111111'', created_at = 0, used = False\<rparr>,
         \<lparr>reset_email = ''a@x.com'', code = ''222222'', created_at = 60000000, used = False\<rparr>],
      sess := \<lparr>user_id = None, login_email = Some ''a@x.com''\<rparr>\<rparr>"

text \<open>
  A stand-in for \<open>slugify\<close> that agrees with it on ASCII letters, digits and single
  spaces: letters are lowered and a space becomes a hyphen.
\<close>

definition ex_lower :: "char \<Rightarrow> char" where
  "ex_lower c =
     (case map_of (zip ''ABCDEFGHIJKLMNOPQRSTUVWXYZ'' ''abcdefghijklmnopqrstuvwxyz'') c of
        Some l \<Rightarrow> l
      | None \<Rightarrow> c)"

definition ex_slugify :: "string \<Rightarrow> string" where
  "ex_slugify s = map (\<lambda>c. if c = CHR '' '' then CHR ''-'' else ex_lower c) s"

definition ex_channels :: "channel list" where
  "ex_channels = [\<lparr>channel_name = ''My Channel'', slug = ''my-channel''\<rparr>]"

definition ex_like_post :: reaction where
  "ex_like_post = \<lparr>r_user_id = 1, r_post_id = Some 7, r_comment_id = None, reaction_type = ''like''\<rparr>"

text \<open>The two options of the poll of post 7.\<close>

definition ex_options :: "poll_option list" where
  "ex_options =
     [\<lparr>option_pk = 1, option_post_id = 7, option_text = ''yes'', position = 0\<rparr>,
      \<lparr>option_pk = 2, option_post_id = 7, option_text = ''no'', position = 1\<rparr>]"

section \<open>Basic facts about the queries and the session\<close>

lemma user_by_email_None: "user_by_email us e = None \<longleftrightarrow> (\<forall>u \<in> set us. email u \<noteq> e)"
  by (auto simp: user_by_email_def find_None_iff)

lemma user_by_email_Some: "user_by_email us e = Some u \<Longrightarrow> u \<in> set us \<and> email u = e"
  by (auto simp: user_by_email_def find_Some_iff)

lemma load_user_member: "u \<in> set us \<Longrightarrow> load_user us (uid u) \<noteq> None"
  by (auto simp: load_user_def find_None_iff)

lemma is_authenticated_flash: "is_authenticated (flash m w) = is_authenticated w"
  by (simp add: is_authenticated_def flash_def split: option.splits)

lemma sess_flash: "sess (flash m w) = sess w"
  by (simp add: flash_def)

lemma is_authenticated_login_user:
  "u \<in> set (users w) \<Longrightarrow> is_active u \<Longrightarrow> is_authenticated (login_user u w)"
  using load_user_member [of u "users w"]
  by (simp add: is_authenticated_def login_user_def split: option.splits)

text \<open>
  Since the construction of the message raises, no mail is sent, and \<open>login\<close> never
  reaches the branch that stores \<open>login_email\<close> in the session.
\<close>

lemma send_verification_code_fails: "send_verification_code ev e c w = (False, w)"
  by (simp add: send_verification_code_def Message_def)

lemma login_keeps_login_email:
  "login_email (sess (snd (login ev rq w))) = login_email (sess w)"
  by (simp add: login_def Let_def sess_flash login_user_def send_verification_code_fails
      split: option.splits)

lemma ex_world_anonymous: "\<not> is_authenticated ex_world"
  by (simp add: is_authenticated_def ex_world_def)

lemma ex_world_alice: "user_by_email (users ex_world) ''a@x.com'' = Some ex_alice"
  by (simp add: user_by_email_def ex_world_def ex_alice_def)

section \<open>Login\<close>

text \<open>
  Claim C10. A login request whose submitted email matches no row of the users table
  creates no PasswordReset row and sends no mail, whatever its login type: the handler
  returns before a code is issued, and the session is left as it was.
\<close>

theorem login_unknown_email_issues_nothing:
  assumes "form rq ''email'' = Some e" and "\<forall>u \<in> set (users w). email u \<noteq> e"
  shows "password_resets (snd (login ev rq w)) = password_resets w
         \<and> outbox (snd (login ev rq w)) = outbox w
         \<and> sess (snd (login ev rq w)) = sess w"
proof -
  from assms(2) have "user_by_email (users w) e = None"
    by (simp add: user_by_email_None)
  with assms(1) show ?thesis
    by (simp add: login_def flash_def)
qed

theorem login_unknown_email_issues_nothing_witness:
  "password_resets (snd (login ex_env
      (ex_post [''email'' \<mapsto> ''nobody@x.com'', ''login_type'' \<mapsto> ''code'']) ex_world)) = []
   \<and> outbox (snd (login ex_env
      (ex_post [''email'' \<mapsto> ''nobody@x.com'', ''login_type'' \<mapsto> ''code'']) ex_world)) = []"
proof -
  let ?rq = "ex_post [''email'' \<mapsto> ''nobody@x.com'', ''login_type'' \<mapsto> ''code'']"
  have h1: "form ?rq ''email'' = Some ''nobody@x.com''"
    by (simp add: ex_post_def)
  have h2: "\<forall>u \<in> set (users ex_world). email u \<noteq> ''nobody@x.com''"
    by (simp add: ex_world_def ex_alice_def)
  show ?thesis
    using login_unknown_email_issues_nothing [OF h1 h2, of ex_env]
    by (simp add: ex_world_def)
qed

text \<open>
  Claim C3. When a passwordless login request reaches the mail step and
  \<open>mail.send\<close> fails, the handler renders the login page again with the message
  \<open>Error sending verification code\<close>, and the code row written before the send stays
  in \<open>password_resets\<close> with \<open>used = False\<close>; nothing else changes.
\<close>

theorem failed_send_keeps_code:
  assumes "\<not> is_authenticated w" and "rq_method rq = POST" and "csrf_ok rq"
    and "form rq ''email'' = Some e" and "e \<noteq> []"
    and "user_by_email (users w) e = Some u"
    and "form_get_default rq ''login_type'' ''password'' \<noteq> ''password''"
    and "commit_ok ev" and "\<not> mail_ok ev"
  shows "login ev rq w =
           (Render ''login.html'',
            w\<lparr>password_resets := password_resets w @
                 [\<lparr>reset_email = e, code = secrets_code ev, created_at = utcnow ev, used = False\<rparr>],
              flashes := flashes w @ [''Error sending verification code'']\<rparr>)"
  using assms
  by (simp add: login_def flash_def truthy_def send_verification_code_def Message_def Let_def)

theorem failed_send_keeps_code_witness:
  "login (ex_env\<lparr>mail_ok := False\<rparr>)
         (ex_post [''email'' \<mapsto> ''a@x.com'', ''login_type'' \<mapsto> ''code'']) ex_world =
     (Render ''login.html'',
      ex_world\<lparr>password_resets :=
                  [\<lparr>reset_email = ''a@x.com'', code = ''483920'', created_at = 0, used = False\<rparr>],
               flashes := [''Error sending verification code'']\<rparr>)"
proof -
  let ?rq = "ex_post [''email'' \<mapsto> ''a@x.com'', ''login_type'' \<mapsto> ''code'']"
  let ?ev = "ex_env\<lparr>mail_ok := False\<rparr>"
  have h2: "rq_method ?rq = POST" and h3: "csrf_ok ?rq"
    and h4: "form ?rq ''email'' = Some ''a@x.com''"
    by (simp_all add: ex_post_def)
  have h5: "''a@x.com'' \<noteq> []" by simp
  have h7: "form_get_default ?rq ''login_type'' ''password'' \<noteq> ''password''"
    by (simp add: form_get_default_def ex_post_def)
  have h8: "commit_ok ?ev" and h9: "\<not> mail_ok ?ev"
    by (simp_all add: ex_env_def)
  show ?thesis
    using failed_send_keeps_code [OF ex_world_anonymous h2 h3 h4 h5 ex_world_alice h7 h8 h9]
    by (simp add: ex_env_def ex_world_def)
qed




section \<open>Registration\<close>


lemma user_by_username_None: "user_by_username us n = None \<longleftrightarrow> (\<forall>u \<in> set us. username u \<noteq> n)"
  by (auto simp: user_by_username_def find_None_iff)

text \<open>
  Claim C5. A registration attempt whose email or username is already in the users table
  writes nothing: the users table and the session are left as they were, so no row is
  created or changed and nobody is logged in. When the attempt is a complete submission
  (a POST with a valid form token from an anonymous session, with email, username and
  password all given) it is answered with the message of the field that collides:
  \<open>Email already registered\<close> when the email is taken, and
  \<open>Username already taken\<close> otherwise.
\<close>

theorem register_duplicate_rejected:
  assumes "form rq ''email'' = Some e" and "form rq ''username'' = Some n"
    and "(\<exists>u \<in> set (users w). email u = e) \<or> (\<exists>u \<in> set (users w). username u = n)"
  shows "users (snd (register ev rq w)) = users w
         \<and> sess (snd (register ev rq w)) = sess w
         \<and> (\<not> is_authenticated w \<and> rq_method rq = POST \<and> csrf_ok rq
              \<and> e \<noteq> [] \<and> n \<noteq> [] \<and> truthy (form rq ''password'')
             \<longrightarrow> register ev rq w =
                   (Render ''register.html'',
                    flash (if \<exists>u \<in> set (users w). email u = e then ''Email already registered''
                           else ''Username already taken'') w))"
proof -
  from assms(3) have "user_by_email (users w) e \<noteq> None \<or> user_by_username (users w) n \<noteq> None"
    by (simp add: user_by_email_None user_by_username_None)
  with assms(1,2) show ?thesis
    by (auto simp: register_def flash_def truthy_def Let_def user_by_email_None)
qed

theorem register_duplicate_rejected_witness:
  "register ex_env
     (ex_post [''email'' \<mapsto> ''a@x.com'', ''username'' \<mapsto> ''bob'', ''password'' \<mapsto> ''hunter22'']) ex_world
   = (Render ''register.html'', ex_world\<lparr>flashes := [''Email already registered'']\<rparr>)
   \<and> register ex_env
     (ex_post [''email'' \<mapsto> ''b@x.com'', ''username'' \<mapsto> ''alice'', ''password'' \<mapsto> ''hunter22'']) ex_world
   = (Render ''register.html'', ex_world\<lparr>flashes := [''Username already taken'']\<rparr>)"
proof -
  let ?r1 = "ex_post [''email'' \<mapsto> ''a@x.com'', ''username'' \<mapsto> ''bob'', ''password'' \<mapsto> ''hunter22'']"
  let ?r2 = "ex_post [''email'' \<mapsto> ''b@x.com'', ''username'' \<mapsto> ''alice'', ''password'' \<mapsto> ''hunter22'']"
  have a: "form ?r1 ''email'' = Some ''a@x.com''" "form ?r1 ''username'' = Some ''bob''"
    "rq_method ?r1 = POST" "csrf_ok ?r1" "truthy (form ?r1 ''password'')"
    by (simp_all add: ex_post_def truthy_def)
  have b: "form ?r2 ''email'' = Some ''b@x.com''" "form ?r2 ''username'' = Some ''alice''"
    "rq_method ?r2 = POST" "csrf_ok ?r2" "truthy (form ?r2 ''password'')"
    by (simp_all add: ex_post_def truthy_def)
  have d1: "\<exists>u \<in> set (users ex_world). email u = ''a@x.com''"
    and d2: "\<exists>u \<in> set (users ex_world). username u = ''alice''"
    and d3: "\<not> (\<exists>u \<in> set (users ex_world). email u = ''b@x.com'')"
    by (simp_all add: ex_world_def ex_alice_def)
  from d1 have h1: "(\<exists>u \<in> set (users ex_world). email u = ''a@x.com'')
      \<or> (\<exists>u \<in> set (users ex_world). username u = ''bob'')" ..
  from d2 have h2: "(\<exists>u \<in> set (users ex_world). email u = ''b@x.com'')
      \<or> (\<exists>u \<in> set (users ex_world). username u = ''alice'')" ..
  have f: "flashes ex_world = []" by (simp add: ex_world_def)
  from register_duplicate_rejected [OF a(1) a(2) h1, of ex_env] a ex_world_anonymous d1
  have "register ex_env ?r1 ex_world = (Render ''register.html'', ex_world\<lparr>flashes := [''Email already registered'']\<rparr>)"
    by (simp add: flash_def f)
  moreover
  from register_duplicate_rejected [OF b(1) b(2) h2, of ex_env] b ex_world_anonymous d3
  have "register ex_env ?r2 ex_world = (Render ''register.html'', ex_world\<lparr>flashes := [''Username already taken'']\<rparr>)"
    by (simp add: flash_def f)
  ultimately show ?thesis by simp
qed

text \<open>
  Claim C6. \<open>RegistrationForm\<close> declares that a username has at least 3 characters
  and a password at least 8, but \<open>register\<close> validates a bare \<open>FlaskForm()\<close>
  and never the declared form. A submission with the username \<open>ab\<close>, the password
  \<open>pw\<close>, an email without \<open>@\<close> and no \<open>terms\<close> field fails the declared
  length bounds and is nevertheless stored as a new account and logged in.
\<close>

theorem register_skips_declared_bounds:
  "RegistrationForm_username ''ab'' =
     Inl (ValidationError ''Username must be at least 3 characters long'')
   \<and> RegistrationForm_password ''pw'' =
     Inl (ValidationError ''Password must be at least 8 characters long'')
   \<and> register ex_env
       (ex_post [''email'' \<mapsto> ''not-an-email'', ''username'' \<mapsto> ''ab'', ''password'' \<mapsto> ''pw''])
       ex_world
     = (Redirect ''dashboard'',
        ex_world\<lparr>users := [ex_alice, \<lparr>uid = 2, username = ''ab'', email = ''not-an-email'',
                                      password_hash = ''h:pw'', is_active = True\<rparr>],
                 sess := \<lparr>user_id = Some 2, login_email = None\<rparr>\<rparr>)"
  by (simp add: RegistrationForm_username_def RegistrationForm_password_def Length_min_def
      register_def is_authenticated_def ex_post_def truthy_def ex_env_def ex_world_def ex_alice_def
      user_by_email_def user_by_username_def next_id_def login_user_def Let_def)


section \<open>Verification codes\<close>

lemma newest_None: "newest xs = None \<longleftrightarrow> xs = []"
  by (induction xs) (auto split: option.splits)

lemma newest_Some:
  "newest xs = Some y \<Longrightarrow> y \<in> set xs \<and> (\<forall>x \<in> set xs. created_at (snd x) \<le> created_at (snd y))"
proof (induction xs arbitrary: y)
  case Nil
  then show ?case by simp
next
  case (Cons a xs)
  show ?case
  proof (cases "newest xs")
    case None
    with Cons.prems show ?thesis by (simp add: newest_None)
  next
    case (Some z)
    from Cons.IH [OF Some] Cons.prems Some show ?thesis
      by (fastforce split: if_splits)
  qed
qed

lemma find_reset_alt:
  "find_reset rs e c = newest (filter (\<lambda>p. unused_match e c (snd p)) (enumerate 0 rs))"
  by (simp add: find_reset_def case_prod_unfold)

lemma find_reset_None:
  "find_reset rs e c = None \<longleftrightarrow> (\<forall>r \<in> set rs. \<not> unused_match e c r)"
proof -
  have "find_reset rs e c = None \<longleftrightarrow> (\<forall>p \<in> set (enumerate 0 rs). \<not> unused_match e c (snd p))"
    by (simp add: find_reset_alt newest_None filter_empty_conv)
  also have "\<dots> \<longleftrightarrow> (\<forall>r \<in> snd ` set (enumerate 0 rs). \<not> unused_match e c r)"
    by simp
  also have "snd ` set (enumerate 0 rs) = set rs"
    by (metis map_snd_enumerate set_map)
  finally show ?thesis .
qed

lemma find_reset_Some:
  assumes "find_reset rs e c = Some (i, r)"
  shows "i < length rs \<and> rs ! i = r \<and> unused_match e c r
         \<and> (\<forall>x \<in> set rs. unused_match e c x \<longrightarrow> created_at x \<le> created_at r)"
proof -
  from assms newest_Some
  have mem: "(i, r) \<in> set (filter (\<lambda>p. unused_match e c (snd p)) (enumerate 0 rs))"
    and top: "\<forall>x \<in> set (filter (\<lambda>p. unused_match e c (snd p)) (enumerate 0 rs)).
                created_at (snd x) \<le> created_at r"
    unfolding find_reset_alt by fastforce+
  from mem have a: "i < length rs" "rs ! i = r" "unused_match e c r"
    by (auto simp: in_set_enumerate_eq)
  have "created_at x \<le> created_at r" if "x \<in> set rs" "unused_match e c x" for x
  proof -
    from that(1) obtain j where "j < length rs" "rs ! j = x"
      by (auto simp: in_set_conv_nth)
    with that(2) have "(j, x) \<in> set (filter (\<lambda>p. unused_match e c (snd p)) (enumerate 0 rs))"
      by (simp add: in_set_enumerate_eq)
    with top show ?thesis by fastforce
  qed
  with a show ?thesis by blast
qed

text \<open>The query result decides acceptance as "some unused matching row is young enough".\<close>

lemma find_reset_fresh:
  "(\<exists>i r. find_reset rs e c = Some (i, r) \<and> now - created_at r \<le> d)
   \<longleftrightarrow> (\<exists>r \<in> set rs. unused_match e c r \<and> now - created_at r \<le> d)"
proof
  assume "\<exists>i r. find_reset rs e c = Some (i, r) \<and> now - created_at r \<le> d"
  then obtain i r where "find_reset rs e c = Some (i, r)" "now - created_at r \<le> d" by blast
  with find_reset_Some [of rs e c i r] show "\<exists>r \<in> set rs. unused_match e c r \<and> now - created_at r \<le> d"
    by (metis nth_mem)
next
  assume "\<exists>r \<in> set rs. unused_match e c r \<and> now - created_at r \<le> d"
  then obtain x where x: "x \<in> set rs" "unused_match e c x" "now - created_at x \<le> d" by blast
  then have "find_reset rs e c \<noteq> None" by (auto simp: find_reset_None)
  then obtain i r where s: "find_reset rs e c = Some (i, r)" by (cases "find_reset rs e c") auto
  from find_reset_Some [OF s] x have "created_at x \<le> created_at r" by blast
  with x(3) have "now - created_at r \<le> d" by linarith
  with s show "\<exists>i r. find_reset rs e c = Some (i, r) \<and> now - created_at r \<le> d" by blast
qed

lemma password_resets_flash: "password_resets (flash m w) = password_resets w"
  by (simp add: flash_def)

lemma password_resets_login_user: "password_resets (login_user u w) = password_resets w"
  by (simp add: login_user_def)

lemma verify_login_frame:
  assumes "\<not> is_authenticated w" and "login_email (sess w) = Some e" and "e \<noteq> []"
    and "rq_method rq = POST" and "csrf_ok rq" and "form rq ''code'' = Some c" and "c \<noteq> []"
  shows "verify_login ev rq w =
     (case find_reset (password_resets w) e c of
        None \<Rightarrow> (Render ''verify_login.html'', flash ''Invalid or expired verification code'' w)
      | Some (i, reset) \<Rightarrow>
          if utcnow ev - created_at reset > timedelta_minutes 30 then
            (Render ''verify_login.html'', flash ''Invalid or expired verification code'' w)
          else if \<not> flush_ok ev then
            (Render ''verify_login.html'', flash ''Error processing verification'' w)
          else
            (case user_by_email (users w) e of
               Some u \<Rightarrow>
                 if commit_ok ev then
                   (Redirect ''dashboard'',
                    (login_user u w)
                      \<lparr>password_resets := (password_resets w)[i := reset\<lparr>used := True\<rparr>],
                       sess := (sess (login_user u w))\<lparr>login_email := None\<rparr>\<rparr>)
                 else
                   (Render ''verify_login.html'',
                    flash ''Error processing verification'' (login_user u w))
             | None \<Rightarrow> (Redirect ''login'', flash ''User not found'' w)))"
  using assms
  by (simp add: verify_login_def truthy_def Let_def split: option.splits prod.splits)

lemma verify_login_rejects:
  assumes "\<not> is_authenticated w" and "login_email (sess w) = Some e" and "e \<noteq> []"
    and "rq_method rq = POST" and "csrf_ok rq" and "form rq ''code'' = Some c" and "c \<noteq> []"
    and "\<not> (\<exists>r \<in> set (password_resets w). unused_match e c r
             \<and> utcnow ev - created_at r \<le> timedelta_minutes 30)"
  shows "verify_login ev rq w =
           (Render ''verify_login.html'', flash ''Invalid or expired verification code'' w)"
proof -
  from assms(8) find_reset_fresh [of "password_resets w" e c "utcnow ev" "timedelta_minutes 30"]
  have "\<not> (\<exists>i r. find_reset (password_resets w) e c = Some (i, r)
                 \<and> utcnow ev - created_at r \<le> timedelta_minutes 30)"
    by simp
  then show ?thesis
    unfolding verify_login_frame [OF assms(1-7)]
    by (auto split: option.splits)
qed

text \<open>
  What \<open>verify_login\<close> does with a submitted code, case by case: the code is
  rejected, or the query finds a row \<open>r\<close> at position \<open>i\<close> that is young enough,
  and then the flush fails, or no account is found, or the commit fails after
  \<open>login_user\<close>, or everything goes through.
\<close>

lemma verify_login_cases:
  assumes "\<not> is_authenticated w" and "login_email (sess w) = Some e" and "e \<noteq> []"
    and "rq_method rq = POST" and "csrf_ok rq" and "form rq ''code'' = Some c" and "c \<noteq> []"
  obtains
    (reject) "\<not> (\<exists>r \<in> set (password_resets w). unused_match e c r
                \<and> utcnow ev - created_at r \<le> timedelta_minutes 30)"
      "verify_login ev rq w =
         (Render ''verify_login.html'', flash ''Invalid or expired verification code'' w)"
  | (found) i r where "find_reset (password_resets w) e c = Some (i, r)"
      "utcnow ev - created_at r \<le> timedelta_minutes 30"
      "verify_login ev rq w =
         (if \<not> flush_ok ev then
            (Render ''verify_login.html'', flash ''Error processing verification'' w)
          else
            (case user_by_email (users w) e of
               Some u \<Rightarrow>
                 if commit_ok ev then
                   (Redirect ''dashboard'',
                    (login_user u w)
                      \<lparr>password_resets := (password_resets w)[i := r\<lparr>used := True\<rparr>],
                       sess := (sess (login_user u w))\<lparr>login_email := None\<rparr>\<rparr>)
                 else
                   (Render ''verify_login.html'',
                    flash ''Error processing verification'' (login_user u w))
             | None \<Rightarrow> (Redirect ''login'', flash ''User not found'' w)))"
proof (cases "\<exists>r \<in> set (password_resets w). unused_match e c r
                \<and> utcnow ev - created_at r \<le> timedelta_minutes 30")
  case False
  from False verify_login_rejects [OF assms False] show ?thesis by (rule reject)
next
  case True
  with find_reset_fresh [of "password_resets w" e c "utcnow ev" "timedelta_minutes 30"]
  obtain i r where f: "find_reset (password_resets w) e c = Some (i, r)"
    and t: "utcnow ev - created_at r \<le> timedelta_minutes 30"
    by blast
  from t have nt: "\<not> utcnow ev - created_at r > timedelta_minutes 30" by simp
  from f t show ?thesis
    by (rule found) (simp add: verify_login_frame [OF assms] f nt)
qed

subsection \<open>A used row stays used\<close>

lemma login_resets:
  "password_resets (snd (login ev rq w)) = password_resets w
   \<or> (\<exists>r. password_resets (snd (login ev rq w)) = password_resets w @ [r])"
  by (simp add: login_def Let_def password_resets_flash password_resets_login_user
      send_verification_code_fails split: option.splits)

lemma verify_login_resets:
  "password_resets (snd (verify_login ev rq w)) = password_resets w
   \<or> (\<exists>i r. password_resets (snd (verify_login ev rq w)) =
               (password_resets w)[i := r\<lparr>used := True\<rparr>])"
  by (auto simp: verify_login_def Let_def password_resets_flash password_resets_login_user
      split: option.splits prod.splits)

lemma register_resets: "password_resets (snd (register ev rq w)) = password_resets w"
  by (simp add: register_def Let_def password_resets_flash password_resets_login_user)

lemma used_update:
  "i < length rs \<Longrightarrow> used (rs ! i) \<Longrightarrow> used (rs[j := r\<lparr>used := True\<rparr>] ! i)"
  by (cases "j = i") simp_all

lemma handle_used_kept:
  assumes "i < length (password_resets w)" and "used (password_resets w ! i)"
  shows "i < length (password_resets (handle r ev rq w))
         \<and> used (password_resets (handle r ev rq w) ! i)"
proof (cases r)
  case Login
  with login_resets [of ev rq w] assms show ?thesis
    by (auto simp: nth_append)
next
  case VerifyLogin
  with verify_login_resets [of ev rq w] assms show ?thesis
    by (auto simp: used_update)
next
  case Logout
  with assms show ?thesis by (simp add: logout_def logout_user_def)
next
  case Register
  with assms show ?thesis by (simp add: register_resets)
next
  case ReadOnly
  with assms show ?thesis by simp
qed

lemma run_used_kept:
  "i < length (password_resets w) \<Longrightarrow> used (password_resets w ! i) \<Longrightarrow>
     i < length (password_resets (run steps w)) \<and> used (password_resets (run steps w) ! i)"
proof (induction steps arbitrary: w)
  case Nil
  then show ?case by simp
next
  case (Cons step steps)
  obtain r ev rq s where step: "step = (r, ev, rq, s)" by (cases step) auto
  from Cons.prems have "i < length (password_resets (w\<lparr>sess := s\<rparr>))"
    "used (password_resets (w\<lparr>sess := s\<rparr>) ! i)" by simp_all
  from handle_used_kept [OF this, of r ev rq]
  have "i < length (password_resets (handle r ev rq (w\<lparr>sess := s\<rparr>)))"
    "used (password_resets (handle r ev rq (w\<lparr>sess := s\<rparr>)) ! i)" by simp_all
  from Cons.IH [OF this] step show ?case by simp
qed

subsection \<open>Acceptance of a submitted code\<close>

lemma is_authenticated_login_user_iff:
  "\<not> is_authenticated w \<Longrightarrow> u \<in> set (users w) \<Longrightarrow>
     is_authenticated (login_user u w) \<longleftrightarrow> is_active u"
  using is_authenticated_login_user [of u w] by (auto simp: login_user_def)

lemma is_authenticated_consumed:
  "is_authenticated (w\<lparr>password_resets := rs, sess := (sess w)\<lparr>login_email := l\<rparr>\<rparr>)
     = is_authenticated w"
  by (simp add: is_authenticated_def split: option.splits)

lemma user_id_login_user: "is_active u \<Longrightarrow> user_id (sess (login_user u w)) = Some (uid u)"
  by (simp add: login_user_def)

lemma verify_login_authenticated:
  "is_authenticated w \<Longrightarrow> verify_login ev rq w = (Redirect ''dashboard'', w)"
  by (simp add: verify_login_def)

lemma verify_login_session:
  assumes "\<not> is_authenticated w" and "login_email (sess w) = Some e" and "e \<noteq> []"
    and "rq_method rq = POST" and "csrf_ok rq" and "form rq ''code'' = Some c" and "c \<noteq> []"
  shows "(is_authenticated (snd (verify_login ev rq w)) \<longleftrightarrow>
            (\<exists>r \<in> set (password_resets w). unused_match e c r
                \<and> utcnow ev - created_at r \<le> timedelta_minutes 30)
            \<and> flush_ok ev \<and> (\<exists>u. user_by_email (users w) e = Some u \<and> is_active u))
         \<and> (\<forall>u. is_authenticated (snd (verify_login ev rq w))
                \<and> user_by_email (users w) e = Some u \<longrightarrow>
              user_id (sess (snd (verify_login ev rq w))) = Some (uid u))"
proof (cases rule: verify_login_cases [OF assms, of ev, case_names reject found])
  case reject
  with assms(1) show ?thesis by (simp add: is_authenticated_flash)
next
  case (found i r)
  from find_reset_Some [OF found(1)] found(2)
  have fresh: "\<exists>r \<in> set (password_resets w). unused_match e c r
      \<and> utcnow ev - created_at r \<le> timedelta_minutes 30"
    by (metis nth_mem)
  show ?thesis
  proof (cases "user_by_email (users w) e")
    case None
    with found(3) assms(1) show ?thesis by (simp add: is_authenticated_flash)
  next
    case (Some u)
    then have "u \<in> set (users w)" by (simp add: user_by_email_Some)
    from is_authenticated_login_user_iff [OF assms(1) this]
    have a: "is_authenticated (login_user u w) \<longleftrightarrow> is_active u" .
    from found(3) Some assms(1) fresh a show ?thesis
      by (simp add: is_authenticated_flash is_authenticated_consumed sess_flash
          user_id_login_user)
  qed
qed

lemma verify_login_table:
  assumes "\<not> is_authenticated w" and "login_email (sess w) = Some e" and "e \<noteq> []"
    and "rq_method rq = POST" and "csrf_ok rq" and "form rq ''code'' = Some c" and "c \<noteq> []"
  shows "(if (\<exists>r \<in> set (password_resets w). unused_match e c r
                \<and> utcnow ev - created_at r \<le> timedelta_minutes 30)
             \<and> flush_ok ev \<and> commit_ok ev \<and> user_by_email (users w) e \<noteq> None
          then \<exists>i r. find_reset (password_resets w) e c = Some (i, r)
                 \<and> password_resets (snd (verify_login ev rq w)) =
                     (password_resets w)[i := r\<lparr>used := True\<rparr>]
          else password_resets (snd (verify_login ev rq w)) = password_resets w)
         \<and> users (snd (verify_login ev rq w)) = users w"
proof (cases rule: verify_login_cases [OF assms, of ev, case_names reject found])
  case reject
  then show ?thesis by (auto simp: flash_def)
next
  case (found i r)
  from find_reset_Some [OF found(1)] found(2)
  have fresh: "\<exists>r \<in> set (password_resets w). unused_match e c r
      \<and> utcnow ev - created_at r \<le> timedelta_minutes 30"
    by (metis nth_mem)
  from found(1,3) fresh show ?thesis
    by (simp add: flash_def login_user_def split: option.splits)
qed

lemma verify_login_consumes:
  assumes "\<not> is_authenticated w" and "login_email (sess w) = Some e" and "e \<noteq> []"
    and "rq_method rq = POST" and "csrf_ok rq" and "form rq ''code'' = Some c" and "c \<noteq> []"
    and "is_authenticated (snd (verify_login ev rq w))" and "commit_ok ev"
  shows "\<exists>i r. find_reset (password_resets w) e c = Some (i, r)
           \<and> password_resets (snd (verify_login ev rq w)) =
               (password_resets w)[i := r\<lparr>used := True\<rparr>]"
proof (cases rule: verify_login_cases [OF assms(1-7), of ev, case_names reject found])
  case reject
  with assms(1,8) show ?thesis by (simp add: is_authenticated_flash)
next
  case (found i r)
  with assms(1,8,9) show ?thesis
    by (simp add: is_authenticated_flash split: option.splits if_splits)
qed


text \<open>
  Claim C1, as the code has it. For a code submitted to \<open>verify_login\<close> (a POST with
  a valid form token from an anonymous session that carries the login email):

  \<^item> the session is authenticated if and only if some unused row stored for that email
    with the submitted code was issued at most 30 minutes ago, the pending write goes
    through, and an active account with that email exists; the query filters on the
    submitted code before it orders by time, so the row it examines is the newest unused
    row with that email and that code, not the newest unused code of the email;
  \<^item> the session then carries the id of the account of that email;
  \<^item> the table of codes changes exactly when such a row exists, an account with the
    email exists (active or not) and both the flush and the commit succeed; then the
    \<open>used\<close> flag of the examined row is set and no other row changes; the users
    table never changes;
  \<^item> once the session is authenticated, a further submission in that session is
    answered by the redirect to the dashboard;
  \<^item> on acceptance with a successful commit the examined row is the one written, it
    stays used through every later sequence of requests of any clients, and a later
    submission of the same code from an anonymous session carrying the same login email
    is answered with \<open>Invalid or expired verification code\<close> unless another row
    holds the same email and code, unused and at most 30 minutes old.
\<close>

theorem verify_login_accepts_iff:
  fixes ev :: env and rq :: request and w :: world
  assumes "\<not> is_authenticated w" and "login_email (sess w) = Some e" and "e \<noteq> []"
    and "rq_method rq = POST" and "csrf_ok rq" and "form rq ''code'' = Some c" and "c \<noteq> []"
  defines "R \<equiv> snd (verify_login ev rq w)"
  shows "(is_authenticated R \<longleftrightarrow>
            (\<exists>r \<in> set (password_resets w). unused_match e c r
                \<and> utcnow ev - created_at r \<le> timedelta_minutes 30)
            \<and> flush_ok ev \<and> (\<exists>u. user_by_email (users w) e = Some u \<and> is_active u))
         \<and> (\<forall>u. is_authenticated R \<and> user_by_email (users w) e = Some u \<longrightarrow>
              user_id (sess R) = Some (uid u))
         \<and> (if (\<exists>r \<in> set (password_resets w). unused_match e c r
                    \<and> utcnow ev - created_at r \<le> timedelta_minutes 30)
                 \<and> flush_ok ev \<and> commit_ok ev \<and> user_by_email (users w) e \<noteq> None
              then \<exists>i r. find_reset (password_resets w) e c = Some (i, r)
                     \<and> password_resets R = (password_resets w)[i := r\<lparr>used := True\<rparr>]
              else password_resets R = password_resets w)
         \<and> users R = users w
         \<and> (is_authenticated R \<longrightarrow>
              (\<forall>ev' rq'. verify_login ev' rq' R = (Redirect ''dashboard'', R)))
         \<and> (is_authenticated R \<and> commit_ok ev \<longrightarrow>
              (\<exists>i r. find_reset (password_resets w) e c = Some (i, r)
                 \<and> i < length (password_resets w) \<and> password_resets w ! i = r
                 \<and> (\<forall>x \<in> set (password_resets w). unused_match e c x \<longrightarrow>
                       created_at x \<le> created_at r)
                 \<and> password_resets R = (password_resets w)[i := r\<lparr>used := True\<rparr>]
                 \<and> (\<forall>steps s ev'.
                       i < length (password_resets (run steps R))
                       \<and> used (password_resets (run steps R) ! i)
                       \<and> (\<not> is_authenticated ((run steps R)\<lparr>sess := s\<rparr>)
                            \<and> login_email s = Some e
                            \<and> (\<forall>j < length (password_resets (run steps R)). j \<noteq> i \<longrightarrow>
                                  \<not> (unused_match e c (password_resets (run steps R) ! j)
                                     \<and> utcnow ev' - created_at (password_resets (run steps R) ! j)
                                         \<le> timedelta_minutes 30))
                          \<longrightarrow> verify_login ev' rq ((run steps R)\<lparr>sess := s\<rparr>) =
                                (Render ''verify_login.html'',
                                 flash ''Invalid or expired verification code''
                                   ((run steps R)\<lparr>sess := s\<rparr>))))))"
proof (intro conjI)
  note frame = assms(1-7)
  show "is_authenticated R \<longleftrightarrow>
      (\<exists>r \<in> set (password_resets w). unused_match e c r
          \<and> utcnow ev - created_at r \<le> timedelta_minutes 30)
      \<and> flush_ok ev \<and> (\<exists>u. user_by_email (users w) e = Some u \<and> is_active u)"
    unfolding R_def using verify_login_session [OF frame, of ev] by blast
  show "\<forall>u. is_authenticated R \<and> user_by_email (users w) e = Some u \<longrightarrow>
      user_id (sess R) = Some (uid u)"
    unfolding R_def using verify_login_session [OF frame, of ev] by blast
  show "if (\<exists>r \<in> set (password_resets w). unused_match e c r
              \<and> utcnow ev - created_at r \<le> timedelta_minutes 30)
           \<and> flush_ok ev \<and> commit_ok ev \<and> user_by_email (users w) e \<noteq> None
        then \<exists>i r. find_reset (password_resets w) e c = Some (i, r)
               \<and> password_resets R = (password_resets w)[i := r\<lparr>used := True\<rparr>]
        else password_resets R = password_resets w"
    unfolding R_def by (rule verify_login_table [OF frame, THEN conjunct1])
  show "users R = users w"
    unfolding R_def by (rule verify_login_table [OF frame, THEN conjunct2])
  show "is_authenticated R \<longrightarrow>
      (\<forall>ev' rq'. verify_login ev' rq' R = (Redirect ''dashboard'', R))"
    by (simp add: verify_login_authenticated)
  show "is_authenticated R \<and> commit_ok ev \<longrightarrow>
      (\<exists>i r. find_reset (password_resets w) e c = Some (i, r)
         \<and> i < length (password_resets w) \<and> password_resets w ! i = r
         \<and> (\<forall>x \<in> set (password_resets w). unused_match e c x \<longrightarrow>
               created_at x \<le> created_at r)
         \<and> password_resets R = (password_resets w)[i := r\<lparr>used := True\<rparr>]
         \<and> (\<forall>steps s ev'.
               i < length (password_resets (run steps R))
               \<and> used (password_resets (run steps R) ! i)
               \<and> (\<not> is_authenticated ((run steps R)\<lparr>sess := s\<rparr>)
                    \<and> login_email s = Some e
                    \<and> (\<forall>j < length (password_resets (run steps R)). j \<noteq> i \<longrightarrow>
                          \<not> (unused_match e c (password_resets (run steps R) ! j)
                             \<and> utcnow ev' - created_at (password_resets (run steps R) ! j)
                                 \<le> timedelta_minutes 30))
                  \<longrightarrow> verify_login ev' rq ((run steps R)\<lparr>sess := s\<rparr>) =
                        (Render ''verify_login.html'',
                         flash ''Invalid or expired verification code''
                           ((run steps R)\<lparr>sess := s\<rparr>)))))"
  proof
    assume acc: "is_authenticated R \<and> commit_ok ev"
    then have "is_authenticated (snd (verify_login ev rq w))" and "commit_ok ev"
      by (simp_all add: R_def)
    from verify_login_consumes [OF frame this]
    obtain i r where f: "find_reset (password_resets w) e c = Some (i, r)"
      and upd: "password_resets R = (password_resets w)[i := r\<lparr>used := True\<rparr>]"
      unfolding R_def by blast
    from find_reset_Some [OF f]
    have i: "i < length (password_resets w)" "password_resets w ! i = r"
      and top: "\<forall>x \<in> set (password_resets w). unused_match e c x \<longrightarrow>
                  created_at x \<le> created_at r"
      by simp_all
    from i(1) have used0: "i < length (password_resets R)" "used (password_resets R ! i)"
      by (simp_all add: upd)
    have later: "i < length (password_resets (run steps R))
        \<and> used (password_resets (run steps R) ! i)
        \<and> (\<not> is_authenticated ((run steps R)\<lparr>sess := s\<rparr>)
             \<and> login_email s = Some e
             \<and> (\<forall>j < length (password_resets (run steps R)). j \<noteq> i \<longrightarrow>
                   \<not> (unused_match e c (password_resets (run steps R) ! j)
                      \<and> utcnow ev' - created_at (password_resets (run steps R) ! j)
                          \<le> timedelta_minutes 30))
           \<longrightarrow> verify_login ev' rq ((run steps R)\<lparr>sess := s\<rparr>) =
                 (Render ''verify_login.html'',
                  flash ''Invalid or expired verification code''
                    ((run steps R)\<lparr>sess := s\<rparr>)))"
      for steps s ev'
    proof -
      let ?w2 = "(run steps R)\<lparr>sess := s\<rparr>"
      let ?rs2 = "password_resets (run steps R)"
      from run_used_kept [OF used0, of steps]
      have kept: "i < length ?rs2" "used (?rs2 ! i)" by simp_all
      have "verify_login ev' rq ?w2 =
          (Render ''verify_login.html'', flash ''Invalid or expired verification code'' ?w2)"
        if anon: "\<not> is_authenticated ?w2" and le: "login_email s = Some e"
          and others: "\<forall>j < length ?rs2. j \<noteq> i \<longrightarrow>
              \<not> (unused_match e c (?rs2 ! j)
                 \<and> utcnow ev' - created_at (?rs2 ! j) \<le> timedelta_minutes 30)"
      proof -
        have "\<not> (unused_match e c x \<and> utcnow ev' - created_at x \<le> timedelta_minutes 30)"
          if "x \<in> set ?rs2" for x
        proof -
          from that obtain j where j: "j < length ?rs2" "?rs2 ! j = x"
            by (auto simp: in_set_conv_nth)
          show ?thesis
          proof (cases "j = i")
            case True
            with kept(2) j(2) show ?thesis by (simp add: unused_match_def)
          next
            case False
            with others j show ?thesis by blast
          qed
        qed
        then have none: "\<not> (\<exists>x \<in> set (password_resets ?w2). unused_match e c x
            \<and> utcnow ev' - created_at x \<le> timedelta_minutes 30)"
          by simp
        have le': "login_email (sess ?w2) = Some e" using le by simp
        from verify_login_rejects [OF anon le' frame(3-7) none] show ?thesis .
      qed
      with kept show ?thesis by blast
    qed
    from f i top upd later show "\<exists>i r. find_reset (password_resets w) e c = Some (i, r)
         \<and> i < length (password_resets w) \<and> password_resets w ! i = r
         \<and> (\<forall>x \<in> set (password_resets w). unused_match e c x \<longrightarrow>
               created_at x \<le> created_at r)
         \<and> password_resets R = (password_resets w)[i := r\<lparr>used := True\<rparr>]
         \<and> (\<forall>steps s ev'.
               i < length (password_resets (run steps R))
               \<and> used (password_resets (run steps R) ! i)
               \<and> (\<not> is_authenticated ((run steps R)\<lparr>sess := s\<rparr>)
                    \<and> login_email s = Some e
                    \<and> (\<forall>j < length (password_resets (run steps R)). j \<noteq> i \<longrightarrow>
                          \<not> (unused_match e c (password_resets (run steps R) ! j)
                             \<and> utcnow ev' - created_at (password_resets (run steps R) ! j)
                                 \<le> timedelta_minutes 30))
                  \<longrightarrow> verify_login ev' rq ((run steps R)\<lparr>sess := s\<rparr>) =
                        (Render ''verify_login.html'',
                         flash ''Invalid or expired verification code''
                           ((run steps R)\<lparr>sess := s\<rparr>))))"
      by blast
  qed
qed

theorem verify_login_accepts_iff_witness:
  "is_authenticated (snd (verify_login (ex_env\<lparr>utcnow := 60000000\<rparr>)
      (ex_post [''code'' \<mapsto> ''483920'']) ex_world_code))
   \<and> user_id (sess (snd (verify_login (ex_env\<lparr>utcnow := 60000000\<rparr>)
      (ex_post [''code'' \<mapsto> ''483920'']) ex_world_code))) = Some 1
   \<and> password_resets (snd (verify_login (ex_env\<lparr>utcnow := 60000000\<rparr>)
      (ex_post [''code'' \<mapsto> ''483920'']) ex_world_code)) =
       [\<lparr>reset_email = ''a@x.com'', code = ''483920'', created_at = 0, used = True\<rparr>]
   \<and> verify_login (ex_env\<lparr>utcnow := 120000000\<rparr>) (ex_post [''code'' \<mapsto> ''483920''])
       (snd (verify_login (ex_env\<lparr>utcnow := 60000000\<rparr>)
          (ex_post [''code'' \<mapsto> ''483920'']) ex_world_code)) =
       (Redirect ''dashboard'',
        snd (verify_login (ex_env\<lparr>utcnow := 60000000\<rparr>)
          (ex_post [''code'' \<mapsto> ''483920'']) ex_world_code))
   \<and> verify_login (ex_env\<lparr>utcnow := 120000000\<rparr>) (ex_post [''code'' \<mapsto> ''483920''])
       ((run [(Logout, ex_env, ex_post Map.empty, \<lparr>user_id = Some 1, login_email = None\<rparr>)]
           (snd (verify_login (ex_env\<lparr>utcnow := 60000000\<rparr>)
              (ex_post [''code'' \<mapsto> ''483920'']) ex_world_code)))
        \<lparr>sess := \<lparr>user_id = None, login_email = Some ''a@x.com''\<rparr>\<rparr>) =
       (Render ''verify_login.html'',
        flash ''Invalid or expired verification code''
          ((run [(Logout, ex_env, ex_post Map.empty, \<lparr>user_id = Some 1, login_email = None\<rparr>)]
              (snd (verify_login (ex_env\<lparr>utcnow := 60000000\<rparr>)
                 (ex_post [''code'' \<mapsto> ''483920'']) ex_world_code)))
           \<lparr>sess := \<lparr>user_id = None, login_email = Some ''a@x.com''\<rparr>\<rparr>))"
proof -
  let ?ev = "ex_env\<lparr>utcnow := 60000000\<rparr>"
  let ?ev' = "ex_env\<lparr>utcnow := 120000000\<rparr>"
  let ?rq = "ex_post [''code'' \<mapsto> ''483920'']"
  let ?r0 = "\<lparr>reset_email = ''a@x.com'', code = ''483920'', created_at = 0, used = False\<rparr>"
  let ?R = "snd (verify_login ?ev ?rq ex_world_code)"
  let ?steps = "[(Logout, ex_env, ex_post Map.empty, \<lparr>user_id = Some 1, login_email = None\<rparr>)]"
  let ?s = "\<lparr>user_id = None, login_email = Some ''a@x.com''\<rparr>"
  have anon: "\<not> is_authenticated ex_world_code"
    by (simp add: is_authenticated_def ex_world_code_def ex_world_def)
  have h: "login_email (sess ex_world_code) = Some ''a@x.com''" "''a@x.com'' \<noteq> []"
    "rq_method ?rq = POST" "csrf_ok ?rq" "form ?rq ''code'' = Some ''483920''" "''483920'' \<noteq> []"
    by (simp_all add: ex_world_code_def ex_post_def)
  have rs: "password_resets ex_world_code = [?r0]"
    by (simp add: ex_world_code_def)
  have u: "user_by_email (users ex_world_code) ''a@x.com'' = Some ex_alice"
    by (simp add: ex_world_code_def ex_world_alice)
  have act: "is_active ex_alice" "uid ex_alice = 1"
    by (simp_all add: ex_alice_def)
  have c: "commit_ok ?ev" "flush_ok ?ev" "utcnow ?ev = 60000000"
    by (simp_all add: ex_env_def)
  have fresh: "\<exists>r \<in> set (password_resets ex_world_code). unused_match ''a@x.com'' ''483920'' r
      \<and> utcnow ?ev - created_at r \<le> timedelta_minutes 30"
    by (simp add: rs c unused_match_def timedelta_minutes_def)
  have f0: "find_reset (password_resets ex_world_code) ''a@x.com'' ''483920'' = Some (0, ?r0)"
    by (simp add: rs find_reset_def unused_match_def)
  note t = verify_login_accepts_iff [OF anon h, of ?ev]
  from t [THEN conjunct1] fresh c(2) u act(1)
  have a: "is_authenticated ?R" by blast
  from t [THEN conjunct2, THEN conjunct1] a u act(2)
  have b: "user_id (sess ?R) = Some 1" by simp
  from t [THEN conjunct2, THEN conjunct2, THEN conjunct2, THEN conjunct2, THEN conjunct1] a
  have d: "verify_login ?ev' ?rq ?R = (Redirect ''dashboard'', ?R)" by blast
  from a c(1) have ac: "is_authenticated ?R \<and> commit_ok ?ev" by simp
  from t [THEN conjunct2, THEN conjunct2, THEN conjunct2, THEN conjunct2, THEN conjunct2,
      THEN mp, OF ac]
  obtain i r where f: "find_reset (password_resets ex_world_code) ''a@x.com'' ''483920'' = Some (i, r)"
    and upd: "password_resets ?R = (password_resets ex_world_code)[i := r\<lparr>used := True\<rparr>]"
    and later: "\<And>steps s ev'.
        \<not> is_authenticated ((run steps ?R)\<lparr>sess := s\<rparr>) \<and> login_email s = Some ''a@x.com''
        \<and> (\<forall>j < length (password_resets (run steps ?R)). j \<noteq> i \<longrightarrow>
              \<not> (unused_match ''a@x.com'' ''483920'' (password_resets (run steps ?R) ! j)
                 \<and> utcnow ev' - created_at (password_resets (run steps ?R) ! j)
                     \<le> timedelta_minutes 30))
        \<Longrightarrow> verify_login ev' ?rq ((run steps ?R)\<lparr>sess := s\<rparr>) =
              (Render ''verify_login.html'',
               flash ''Invalid or expired verification code'' ((run steps ?R)\<lparr>sess := s\<rparr>))"
    by blast
  from f f0 have i0: "i = 0" "r = ?r0" by simp_all
  from upd have p: "password_resets ?R =
      [\<lparr>reset_email = ''a@x.com'', code = ''483920'', created_at = 0, used = True\<rparr>]"
    by (simp add: i0 rs)
  have len: "length (password_resets (run ?steps ?R)) = 1"
    by (simp add: logout_def logout_user_def p)
  have pre: "\<not> is_authenticated ((run ?steps ?R)\<lparr>sess := ?s\<rparr>) \<and> login_email ?s = Some ''a@x.com''
      \<and> (\<forall>j < length (password_resets (run ?steps ?R)). j \<noteq> i \<longrightarrow>
            \<not> (unused_match ''a@x.com'' ''483920'' (password_resets (run ?steps ?R) ! j)
               \<and> utcnow ?ev' - created_at (password_resets (run ?steps ?R) ! j)
                   \<le> timedelta_minutes 30))"
    unfolding len by (simp add: is_authenticated_def i0)
  from later [OF pre] a b p d show ?thesis by simp
qed

text \<open>
  Claim C1, as stated, fails. Two codes are issued for the same email one minute apart
  and neither is used; the older one is submitted a minute later. It is not the most
  recent unused code of that email, and the handler accepts it.
\<close>

theorem verify_login_older_code_counterexample:
  "\<not> (is_authenticated (snd (verify_login (ex_env\<lparr>utcnow := 120000000\<rparr>)
          (ex_post [''code'' \<mapsto> ''111111'']) ex_world_two_codes))
      \<longleftrightarrow> spec_code_accepted (password_resets ex_world_two_codes) ''a@x.com'' ''111111''
            (utcnow (ex_env\<lparr>utcnow := 120000000\<rparr>)))"
proof -
  have "verify_login (ex_env\<lparr>utcnow := 120000000\<rparr>)
          (ex_post [''code'' \<mapsto> ''111111'']) ex_world_two_codes =
        (Redirect ''dashboard'',
         ex_world_two_codes
           \<lparr>password_resets :=
              [\<lparr>reset_email = ''a@x.com'', code = ''111111'', created_at = 0, used = True\<rparr>,
               \<lparr>reset_email = ''a@x.com'', code = ''222222'', created_at = 60000000, used = False\<rparr>],
            sess := \<lparr>user_id = Some 1, login_email = None\<rparr>\<rparr>)"
    by (simp add: verify_login_def is_authenticated_def ex_world_two_codes_def ex_world_def
        ex_post_def ex_env_def ex_alice_def truthy_def find_reset_def unused_match_def
        user_by_email_def login_user_def timedelta_minutes_def Let_def)
  then have "is_authenticated (snd (verify_login (ex_env\<lparr>utcnow := 120000000\<rparr>)
          (ex_post [''code'' \<mapsto> ''111111'']) ex_world_two_codes))"
    by (simp add: is_authenticated_def load_user_def ex_world_two_codes_def ex_world_def
        ex_alice_def)
  moreover
  have "\<not> spec_code_accepted (password_resets ex_world_two_codes) ''a@x.com'' ''111111''
            (utcnow (ex_env\<lparr>utcnow := 120000000\<rparr>))"
    by (simp add: spec_code_accepted_def ex_world_two_codes_def)
  ultimately show ?thesis by simp
qed

section \<open>Failure messages\<close>

text \<open>
  Claim C2, as the code has it. The failure messages of \<open>login\<close> name the case that
  failed: an email with no account gives \<open>No account found with this email address\<close>,
  an account without a stored hash gives
  \<open>Please use passwordless login or reset your password\<close>, and a hash mismatch gives
  \<open>Invalid password\<close>. Only \<open>verify_login\<close> is generic: a code that matches no
  row, a code that was already used and a code older than 30 minutes all give
  \<open>Invalid or expired verification code\<close>.
\<close>

theorem login_failure_messages:
  assumes "\<not> is_authenticated w" and "rq_method rq = POST" and "csrf_ok rq"
    and "form rq ''email'' = Some e" and "e \<noteq> []"
    and "form rq ''password'' = Some p" and "p \<noteq> []"
    and "form_get_default rq ''login_type'' ''password'' = ''password''"
    and "\<not> is_authenticated w'" and "login_email (sess w') = Some e'" and "e' \<noteq> []"
    and "rq_method rq' = POST" and "csrf_ok rq'" and "form rq' ''code'' = Some c" and "c \<noteq> []"
  shows "(user_by_email (users w) e = None \<longrightarrow>
            login ev rq w =
              (Render ''login.html'', flash ''No account found with this email address'' w))
         \<and> (\<forall>u. user_by_email (users w) e = Some u \<and> password_hash u = [] \<longrightarrow>
            login ev rq w =
              (Render ''login.html'',
               flash ''Please use passwordless login or reset your password'' w))
         \<and> (\<forall>u. user_by_email (users w) e = Some u \<and> password_hash u \<noteq> []
                \<and> \<not> check_password_hash ev (password_hash u) p \<longrightarrow>
            login ev rq w = (Render ''login.html'', flash ''Invalid password'' w))
         \<and> (\<not> (\<exists>r \<in> set (password_resets w'). unused_match e' c r
                  \<and> utcnow ev' - created_at r \<le> timedelta_minutes 30) \<longrightarrow>
            verify_login ev' rq' w' =
              (Render ''verify_login.html'', flash ''Invalid or expired verification code'' w'))"
proof (intro conjI impI allI)
  assume "user_by_email (users w) e = None"
  with assms(1-8) show "login ev rq w =
      (Render ''login.html'', flash ''No account found with this email address'' w)"
    by (simp add: login_def truthy_def)
next
  fix u assume "user_by_email (users w) e = Some u \<and> password_hash u = []"
  with assms(1-8) show "login ev rq w =
      (Render ''login.html'', flash ''Please use passwordless login or reset your password'' w)"
    by (simp add: login_def truthy_def Let_def)
next
  fix u assume "user_by_email (users w) e = Some u \<and> password_hash u \<noteq> []
      \<and> \<not> check_password_hash ev (password_hash u) p"
  with assms(1-8) show "login ev rq w = (Render ''login.html'', flash ''Invalid password'' w)"
    by (simp add: login_def truthy_def Let_def)
next
  assume "\<not> (\<exists>r \<in> set (password_resets w'). unused_match e' c r
      \<and> utcnow ev' - created_at r \<le> timedelta_minutes 30)"
  from verify_login_rejects [OF assms(9-15) this]
  show "verify_login ev' rq' w' =
      (Render ''verify_login.html'', flash ''Invalid or expired verification code'' w')" .
qed

theorem login_failure_messages_witness:
  "login ex_env (ex_post [''email'' \<mapsto> ''a@x.com'', ''password'' \<mapsto> ''guess''])
       (ex_world\<lparr>users := []\<rparr>) =
     (Render ''login.html'',
      flash ''No account found with this email address'' (ex_world\<lparr>users := []\<rparr>))
   \<and> login ex_env (ex_post [''email'' \<mapsto> ''a@x.com'', ''password'' \<mapsto> ''guess''])
       (ex_world\<lparr>users := [ex_alice\<lparr>password_hash := []\<rparr>]\<rparr>) =
     (Render ''login.html'',
      flash ''Please use passwordless login or reset your password''
        (ex_world\<lparr>users := [ex_alice\<lparr>password_hash := []\<rparr>]\<rparr>))
   \<and> login ex_env (ex_post [''email'' \<mapsto> ''a@x.com'', ''password'' \<mapsto> ''guess'']) ex_world =
     (Render ''login.html'', flash ''Invalid password'' ex_world)
   \<and> verify_login ex_env (ex_post [''code'' \<mapsto> ''000000'']) ex_world_code =
     (Render ''verify_login.html'', flash ''Invalid or expired verification code'' ex_world_code)
   \<and> verify_login (ex_env\<lparr>utcnow := 1800000001\<rparr>) (ex_post [''code'' \<mapsto> ''483920''])
       ex_world_code =
     (Render ''verify_login.html'', flash ''Invalid or expired verification code'' ex_world_code)"
proof -
  let ?rq = "ex_post [''email'' \<mapsto> ''a@x.com'', ''password'' \<mapsto> ''guess'']"
  let ?w0 = "ex_world\<lparr>users := []\<rparr>"
  let ?w1 = "ex_world\<lparr>users := [ex_alice\<lparr>password_hash := []\<rparr>]\<rparr>"
  let ?bad = "ex_post [''code'' \<mapsto> ''000000'']"
  let ?late = "ex_post [''code'' \<mapsto> ''483920'']"
  have anon: "\<not> is_authenticated ?w0" "\<not> is_authenticated ?w1" "\<not> is_authenticated ex_world_code"
    by (simp_all add: is_authenticated_def ex_world_def ex_world_code_def)
  have l: "rq_method ?rq = POST" "csrf_ok ?rq" "form ?rq ''email'' = Some ''a@x.com''"
    "''a@x.com'' \<noteq> []" "form ?rq ''password'' = Some ''guess''" "''guess'' \<noteq> []"
    "form_get_default ?rq ''login_type'' ''password'' = ''password''"
    by (simp_all add: ex_post_def form_get_default_def)
  have s: "login_email (sess ex_world_code) = Some ''a@x.com''" "''a@x.com'' \<noteq> []"
    by (simp_all add: ex_world_code_def)
  have vb: "rq_method ?bad = POST" "csrf_ok ?bad" "form ?bad ''code'' = Some ''000000''"
    "''000000'' \<noteq> []"
    by (simp_all add: ex_post_def)
  have vl: "rq_method ?late = POST" "csrf_ok ?late" "form ?late ''code'' = Some ''483920''"
    "''483920'' \<noteq> []"
    by (simp_all add: ex_post_def)
  have u0: "user_by_email (users ?w0) ''a@x.com'' = None"
    by (simp add: user_by_email_def)
  have u1: "user_by_email (users ?w1) ''a@x.com'' = Some (ex_alice\<lparr>password_hash := []\<rparr>)
      \<and> password_hash (ex_alice\<lparr>password_hash := []\<rparr>) = []"
    by (simp add: user_by_email_def ex_alice_def)
  have u2: "user_by_email (users ex_world) ''a@x.com'' = Some ex_alice
      \<and> password_hash ex_alice \<noteq> []
      \<and> \<not> check_password_hash ex_env (password_hash ex_alice) ''guess''"
    by (simp add: ex_world_alice ex_alice_def ex_env_def)
  have n1: "\<not> (\<exists>r \<in> set (password_resets ex_world_code). unused_match ''a@x.com'' ''000000'' r
      \<and> utcnow ex_env - created_at r \<le> timedelta_minutes 30)"
    by (simp add: ex_world_code_def unused_match_def)
  have n2: "\<not> (\<exists>r \<in> set (password_resets ex_world_code). unused_match ''a@x.com'' ''483920'' r
      \<and> utcnow (ex_env\<lparr>utcnow := 1800000001\<rparr>) - created_at r \<le> timedelta_minutes 30)"
    by (simp add: ex_world_code_def unused_match_def timedelta_minutes_def)
  note t0 = login_failure_messages [OF anon(1) l anon(3) s vb, of ex_env ex_env]
  note t1 = login_failure_messages [OF anon(2) l anon(3) s vb, of ex_env ex_env]
  note t2 = login_failure_messages [OF ex_world_anonymous l anon(3) s vl,
      of ex_env "ex_env\<lparr>utcnow := 1800000001\<rparr>"]
  from t0 u0 have a: "login ex_env ?rq ?w0 =
      (Render ''login.html'', flash ''No account found with this email address'' ?w0)"
    by blast
  from t1 u1 have b: "login ex_env ?rq ?w1 =
      (Render ''login.html'', flash ''Please use passwordless login or reset your password'' ?w1)"
    by blast
  from t2 u2 have c: "login ex_env ?rq ex_world =
      (Render ''login.html'', flash ''Invalid password'' ex_world)"
    by blast
  from t0 n1 have d: "verify_login ex_env ?bad ex_world_code =
      (Render ''verify_login.html'', flash ''Invalid or expired verification code'' ex_world_code)"
    by blast
  from t2 n2 have e: "verify_login (ex_env\<lparr>utcnow := 1800000001\<rparr>) ?late ex_world_code =
      (Render ''verify_login.html'', flash ''Invalid or expired verification code'' ex_world_code)"
    by blast
  from a b c d e show ?thesis by blast
qed

text \<open>
  Claim C2, as stated, fails. The same wrong password is submitted for the same email
  once when the account exists and once when it does not; the two messages differ, so
  the caller learns whether the account exists.
\<close>

theorem login_messages_differ_counterexample:
  "flashes (snd (login ex_env (ex_post [''email'' \<mapsto> ''a@x.com'', ''password'' \<mapsto> ''guess''])
       ex_world)) = [''Invalid password'']
   \<and> flashes (snd (login ex_env (ex_post [''email'' \<mapsto> ''a@x.com'', ''password'' \<mapsto> ''guess''])
       (ex_world\<lparr>users := []\<rparr>))) = [''No account found with this email address'']
   \<and> flashes (snd (login ex_env (ex_post [''email'' \<mapsto> ''a@x.com'', ''password'' \<mapsto> ''guess''])
       ex_world))
     \<noteq> flashes (snd (login ex_env (ex_post [''email'' \<mapsto> ''a@x.com'', ''password'' \<mapsto> ''guess''])
       (ex_world\<lparr>users := []\<rparr>)))"
  by (simp add: login_def is_authenticated_def ex_world_def ex_post_def truthy_def
      form_get_default_def user_by_email_def ex_alice_def ex_env_def flash_def Let_def)

section \<open>Channel names\<close>

text \<open>
  Claim C9. \<open>validate_name\<close> decides on the slug alone: it raises the validation
  error exactly when some existing channel has the slug of the submitted name, whatever
  the display names are, and it passes otherwise.
\<close>

theorem validate_name_by_slug:
  "validate_name slugify channels d =
     (if \<exists>ch \<in> set channels. slug ch = slugify d
      then Inl (ValidationError ''A channel with this name already exists.'')
      else Inr ())"
proof (cases "find (\<lambda>c. slug c = slugify d) channels")
  case None
  then have "\<not> (\<exists>ch \<in> set channels. slug ch = slugify d)"
    by (simp add: find_None_iff)
  with None show ?thesis by (simp add: validate_name_def)
next
  case (Some ch)
  then have "\<exists>ch \<in> set channels. slug ch = slugify d"
    by (auto simp: find_Some_iff)
  with Some show ?thesis by (simp add: validate_name_def)
qed

theorem validate_name_by_slug_witness:
  "validate_name ex_slugify ex_channels ''MY channel'' =
     Inl (ValidationError ''A channel with this name already exists.'')
   \<and> validate_name ex_slugify ex_channels ''Your Channel'' = Inr ()"
proof -
  have a: "\<exists>ch \<in> set ex_channels. slug ch = ex_slugify ''MY channel''"
    by (simp add: ex_channels_def ex_slugify_def ex_lower_def)
  have b: "\<not> (\<exists>ch \<in> set ex_channels. slug ch = ex_slugify ''Your Channel'')"
    by (simp add: ex_channels_def ex_slugify_def ex_lower_def)
  from validate_name_by_slug [of ex_slugify ex_channels "''MY channel''"] a
    validate_name_by_slug [of ex_slugify ex_channels "''Your Channel''"] b
  show ?thesis by simp
qed

section \<open>Reactions and poll votes\<close>

lemma chk_exactly_one: "chk_reaction_target r = exactly_one_target r"
  by (auto simp: chk_reaction_target_def exactly_one_target_def)

lemma insert_reaction_Inr:
  "insert_reaction rs r = Inr rs' \<Longrightarrow> rs' = rs @ [r] \<and> exactly_one_target r"
  by (auto simp: insert_reaction_def chk_exactly_one split: if_splits)

lemma update_reaction_Inr:
  "update_reaction rs i r = Inr rs' \<Longrightarrow> rs' = rs \<or> (rs' = rs[i := r] \<and> exactly_one_target r)"
  by (auto simp: update_reaction_def chk_exactly_one split: if_splits)

lemma apply_reaction_op_invariant:
  assumes "\<forall>x \<in> set rs. exactly_one_target x"
  shows "\<forall>x \<in> set (apply_reaction_op rs op). exactly_one_target x"
proof (cases op)
  case (Insert r)
  show ?thesis
  proof (cases "insert_reaction rs r")
    case (Inl err)
    with Insert assms show ?thesis by simp
  next
    case (Inr rs')
    with insert_reaction_Inr [OF Inr] Insert assms show ?thesis by auto
  qed
next
  case (Update i r)
  show ?thesis
  proof (cases "update_reaction rs i r")
    case (Inl err)
    with Update assms show ?thesis by simp
  next
    case (Inr rs')
    from update_reaction_Inr [OF Inr] assms have "\<forall>x \<in> set rs'. exactly_one_target x"
      using set_update_subset_insert [of rs i r] by auto
    with Update Inr show ?thesis by simp
  qed
next
  case (Delete i)
  have "set (delete_reaction rs i) \<subseteq> set rs"
    using set_take_subset [of i rs] set_drop_subset [of "Suc i" rs]
    by (auto simp: delete_reaction_def)
  with Delete assms show ?thesis by auto
qed

lemma run_reaction_ops_invariant:
  "\<forall>x \<in> set rs. exactly_one_target x \<Longrightarrow>
     \<forall>x \<in> set (run_reaction_ops rs ops). exactly_one_target x"
  unfolding run_reaction_ops_def
proof (induction ops arbitrary: rs)
  case Nil
  then show ?case by simp
next
  case (Cons op ops)
  from Cons.IH [OF apply_reaction_op_invariant [OF Cons.prems]] show ?case by simp
qed

text \<open>
  Claim C7. An insert of a reaction that sets both targets or neither is rejected, and
  in every table reached from the empty one by attempted inserts, updates and deletes
  each row has exactly one of \<open>post_id\<close> and \<open>comment_id\<close> set.
\<close>

theorem reaction_exactly_one_target:
  "(\<not> exactly_one_target r \<longrightarrow> (\<exists>err. insert_reaction rs r = Inl err))
   \<and> (\<forall>x \<in> set (run_reaction_ops [] ops). exactly_one_target x)"
proof
  show "\<not> exactly_one_target r \<longrightarrow> (\<exists>err. insert_reaction rs r = Inl err)"
    by (simp add: insert_reaction_def chk_exactly_one)
  show "\<forall>x \<in> set (run_reaction_ops [] ops). exactly_one_target x"
    by (rule run_reaction_ops_invariant) simp
qed

theorem reaction_exactly_one_target_witness:
  "insert_reaction [ex_like_post] (ex_like_post\<lparr>r_user_id := 2, r_comment_id := Some 3\<rparr>)
     = Inl (IntegrityError ''chk_reaction_target'')
   \<and> insert_reaction [ex_like_post] (ex_like_post\<lparr>r_user_id := 2, r_post_id := None\<rparr>)
     = Inl (IntegrityError ''chk_reaction_target'')
   \<and> run_reaction_ops []
        [Insert ex_like_post,
         Insert (ex_like_post\<lparr>r_user_id := 2, r_comment_id := Some 3\<rparr>),
         Update 0 (ex_like_post\<lparr>r_post_id := None\<rparr>),
         Insert (ex_like_post\<lparr>r_user_id := 2, r_post_id := None, r_comment_id := Some 3\<rparr>)]
     = [ex_like_post, ex_like_post\<lparr>r_user_id := 2, r_post_id := None, r_comment_id := Some 3\<rparr>]
   \<and> exactly_one_target ex_like_post
   \<and> exactly_one_target (ex_like_post\<lparr>r_user_id := 2, r_post_id := None, r_comment_id := Some 3\<rparr>)"
proof -
  let ?both = "ex_like_post\<lparr>r_user_id := 2, r_comment_id := Some 3\<rparr>"
  let ?neither = "ex_like_post\<lparr>r_user_id := 2, r_post_id := None\<rparr>"
  let ?on_comment = "ex_like_post\<lparr>r_user_id := 2, r_post_id := None, r_comment_id := Some 3\<rparr>"
  let ?ops = "[Insert ex_like_post, Insert ?both, Update 0 (ex_like_post\<lparr>r_post_id := None\<rparr>),
               Insert ?on_comment]"
  have n: "\<not> exactly_one_target ?both" "\<not> exactly_one_target ?neither"
    by (simp_all add: exactly_one_target_def ex_like_post_def)
  from reaction_exactly_one_target [of ?both "[ex_like_post]" ?ops, THEN conjunct1] n(1)
  have a: "insert_reaction [ex_like_post] ?both = Inl (IntegrityError ''chk_reaction_target'')"
    by (simp add: insert_reaction_def uix_user_post_reaction_def uix_user_comment_reaction_def
        ex_like_post_def split: if_splits)
  from reaction_exactly_one_target [of ?neither "[ex_like_post]" ?ops, THEN conjunct1] n(2)
  have b: "insert_reaction [ex_like_post] ?neither = Inl (IntegrityError ''chk_reaction_target'')"
    by (simp add: insert_reaction_def uix_user_post_reaction_def uix_user_comment_reaction_def
        ex_like_post_def split: if_splits)
  have c: "run_reaction_ops [] ?ops = [ex_like_post, ?on_comment]"
    by (simp add: run_reaction_ops_def insert_reaction_def update_reaction_def
        delete_reaction_def uix_user_post_reaction_def uix_user_comment_reaction_def
        chk_reaction_target_def ex_like_post_def)
  from reaction_exactly_one_target [of ?both "[ex_like_post]" ?ops, THEN conjunct2]
  have d: "exactly_one_target ex_like_post \<and> exactly_one_target ?on_comment"
    unfolding c by simp
  from a b c d show ?thesis by simp
qed

text \<open>
  Claim C8. The uniqueness of poll votes is per (user, option). A vote of a user on an
  option they already voted for is rejected. When two different options belong to the
  same poll and the user has voted for neither, a vote on the first and then a vote on
  the second are both accepted.
\<close>

theorem poll_vote_unique_per_option:
  "((\<exists>x \<in> set vs. v_user_id x = v_user_id v \<and> v_option_id x = v_option_id v)
      \<longrightarrow> insert_poll_vote vs v = Inl (IntegrityError ''uix_user_option_vote''))
   \<and> (o1 \<in> set options \<and> o2 \<in> set options \<and> option_post_id o1 = option_post_id o2
        \<and> option_pk o1 \<noteq> option_pk o2
        \<and> (\<forall>x \<in> set vs. v_user_id x = u \<longrightarrow> v_option_id x \<noteq> option_pk o1 \<and> v_option_id x \<noteq> option_pk o2)
      \<longrightarrow> insert_poll_vote vs \<lparr>v_user_id = u, v_option_id = option_pk o1\<rparr>
            = Inr (vs @ [\<lparr>v_user_id = u, v_option_id = option_pk o1\<rparr>])
          \<and> insert_poll_vote (vs @ [\<lparr>v_user_id = u, v_option_id = option_pk o1\<rparr>])
              \<lparr>v_user_id = u, v_option_id = option_pk o2\<rparr>
            = Inr (vs @ [\<lparr>v_user_id = u, v_option_id = option_pk o1\<rparr>,
                         \<lparr>v_user_id = u, v_option_id = option_pk o2\<rparr>]))"
proof (intro conjI impI)
  assume "\<exists>x \<in> set vs. v_user_id x = v_user_id v \<and> v_option_id x = v_option_id v"
  then have "\<not> uix_user_option_vote vs v"
    by (simp add: uix_user_option_vote_def)
  then show "insert_poll_vote vs v = Inl (IntegrityError ''uix_user_option_vote'')"
    by (simp add: insert_poll_vote_def)
next
  let ?v1 = "\<lparr>v_user_id = u, v_option_id = option_pk o1\<rparr>"
  let ?v2 = "\<lparr>v_user_id = u, v_option_id = option_pk o2\<rparr>"
  assume h: "o1 \<in> set options \<and> o2 \<in> set options \<and> option_post_id o1 = option_post_id o2
      \<and> option_pk o1 \<noteq> option_pk o2
      \<and> (\<forall>x \<in> set vs. v_user_id x = u \<longrightarrow>
            v_option_id x \<noteq> option_pk o1 \<and> v_option_id x \<noteq> option_pk o2)"
  then have "uix_user_option_vote vs ?v1"
    by (auto simp: uix_user_option_vote_def)
  then show "insert_poll_vote vs ?v1 = Inr (vs @ [?v1])"
    by (simp add: insert_poll_vote_def)
  from h have "uix_user_option_vote (vs @ [?v1]) ?v2"
    by (auto simp: uix_user_option_vote_def)
  then show "insert_poll_vote (vs @ [?v1]) ?v2 = Inr (vs @ [?v1, ?v2])"
    by (simp add: insert_poll_vote_def)
qed

theorem poll_vote_unique_per_option_witness:
  "insert_poll_vote [] \<lparr>v_user_id = 5, v_option_id = 1\<rparr> = Inr [\<lparr>v_user_id = 5, v_option_id = 1\<rparr>]
   \<and> insert_poll_vote [\<lparr>v_user_id = 5, v_option_id = 1\<rparr>] \<lparr>v_user_id = 5, v_option_id = 2\<rparr>
       = Inr [\<lparr>v_user_id = 5, v_option_id = 1\<rparr>, \<lparr>v_user_id = 5, v_option_id = 2\<rparr>]
   \<and> insert_poll_vote [\<lparr>v_user_id = 5, v_option_id = 1\<rparr>, \<lparr>v_user_id = 5, v_option_id = 2\<rparr>]
         \<lparr>v_user_id = 5, v_option_id = 1\<rparr>
       = Inl (IntegrityError ''uix_user_option_vote'')"
proof -
  let ?o1 = "\<lparr>option_pk = 1, option_post_id = 7, option_text = ''yes'', position = 0\<rparr>"
  let ?o2 = "\<lparr>option_pk = 2, option_post_id = 7, option_text = ''no'', position = 1\<rparr>"
  let ?v1 = "\<lparr>v_user_id = 5, v_option_id = 1\<rparr>"
  let ?v2 = "\<lparr>v_user_id = 5, v_option_id = 2\<rparr>"
  have h: "?o1 \<in> set ex_options \<and> ?o2 \<in> set ex_options
      \<and> option_post_id ?o1 = option_post_id ?o2 \<and> option_pk ?o1 \<noteq> option_pk ?o2
      \<and> (\<forall>x \<in> set []. v_user_id x = (5::nat) \<longrightarrow>
            v_option_id x \<noteq> option_pk ?o1 \<and> v_option_id x \<noteq> option_pk ?o2)"
    by (simp add: ex_options_def)
  from poll_vote_unique_per_option [of "[]" ?v1 ?o1 ex_options ?o2 5, THEN conjunct2, THEN mp, OF h]
  have a: "insert_poll_vote [] ?v1 = Inr [?v1]"
    and b: "insert_poll_vote [?v1] ?v2 = Inr [?v1, ?v2]"
    by simp_all
  have d: "\<exists>x \<in> set [?v1, ?v2]. v_user_id x = v_user_id ?v1 \<and> v_option_id x = v_option_id ?v1"
    by simp
  from poll_vote_unique_per_option [of "[?v1, ?v2]" ?v1 ?o1 ex_options ?o2 5, THEN conjunct1, THEN mp, OF d]
  have c: "insert_poll_vote [?v1, ?v2] ?v1 = Inl (IntegrityError ''uix_user_option_vote'')" .
  from a b c show ?thesis by simp
qed

end
